theory Spec2Isabelle
  imports Main
begin

section \<open>Errors\<close>

text \<open>
  A Go \<^verbatim>\<open>error\<close> is represented by the text its \<^verbatim>\<open>Error()\<close> method yields; the
  \<^verbatim>\<open>nil\<close> error is \<open>None\<close>.
\<close>

type_synonym err = string

section \<open>bootstrap: parsing the config service addresses\<close>

text \<open>
  \<^verbatim>\<open>ConfigServiceAddr\<close> is declared next to \<^verbatim>\<open>LocalConfig\<close>; the function below reads its
  two string fields \<^verbatim>\<open>IP\<close> and \<^verbatim>\<open>Port\<close>.
\<close>

record ConfigServiceAddr =
  IP :: string
  Port :: string

text \<open>
  \<^verbatim>\<open>strings.Split(s, sep)\<close> of the Go standard library for a one-byte separator: the
  substrings between the separators, in order. A string with \<open>n\<close> separators has
  \<open>n + 1\<close> segments; the empty string has the single segment \<open>''''\<close>.
\<close>

fun Split :: "string \<Rightarrow> char \<Rightarrow> string list" where
  "Split [] sep = [[]]"
| "Split (c # cs) sep =
     (if c = sep then [] # Split cs sep
      else (case Split cs sep of
              [] \<Rightarrow> [[c]]
            | seg # segs \<Rightarrow> (c # seg) # segs))"

text \<open>
  \<^verbatim>\<open>net.JoinHostPort(host, port)\<close> of the Go standard library: a host that contains a colon
  is taken for a literal IPv6 address and put in brackets.
\<close>

definition JoinHostPort :: "string \<Rightarrow> string \<Rightarrow> string" where
  "JoinHostPort host port =
     (if CHR '':'' \<in> set host then ''['' @ host @ '']:'' @ port
      else host @ '':'' @ port)"

text \<open>
  The loop \<^verbatim>\<open>for i, host := range hosts { arr = append(arr, net.JoinHostPort(host, ports[i])) }\<close>:
  \<open>i\<close> is the index of \<open>host\<close>, \<open>arr\<close> the slice built so far.
\<close>

fun join_loop :: "string list \<Rightarrow> nat \<Rightarrow> string list \<Rightarrow> string list \<Rightarrow> string list" where
  "join_loop ports i [] arr = arr"
| "join_loop ports i (host # rest) arr =
     join_loop ports (Suc i) rest (arr @ [JoinHostPort host (ports ! i)])"

definition parseConfigServiceHosts :: "ConfigServiceAddr \<Rightarrow> err + string list" where
  "parseConfigServiceHosts cfg =
     (let hosts = Split (IP cfg) CHR '';'';
          ports = Split (Port cfg) CHR '';''
      in if length hosts \<noteq> length ports
         then Inl ''len(hosts) != len(ports)''
         else Inr (join_loop ports 0 hosts []))"

section \<open>app: the supervisor\<close>

subsection \<open>External collaborators\<close>

text \<open>
  \<^verbatim>\<open>errors.WithMessage(err, msg)\<close> of \<^verbatim>\<open>github.com/pkg/errors\<close>: the text of the annotated
  error is the message, a colon and a space, and the text of the cause.
\<close>

definition WithMessage :: "err \<Rightarrow> string \<Rightarrow> err" where
  "WithMessage e msg = msg @ '': '' @ e"

text \<open>
  \<^verbatim>\<open>config.Config\<close>: only the optional lookups with a default are used by \<^verbatim>\<open>New\<close>.
\<close>

record Config =
  OptionalString :: "string \<Rightarrow> string \<Rightarrow> string"
  OptionalInt :: "string \<Rightarrow> int \<Rightarrow> int"
  OptionalBool :: "string \<Rightarrow> bool \<Rightarrow> bool"

datatype Level = DebugLevel | InfoLevel

record Rotation =
  File :: string
  MaxSizeMb :: int
  MaxDays :: int
  MaxBackups :: int
  Compress :: bool

datatype LogOption = WithDevelopmentMode | WithLevel Level | WithFileRotation Rotation

text \<open>
  \<^verbatim>\<open>log.Adapter\<close>: the options it was built from and what its \<^verbatim>\<open>Close()\<close> returns.
\<close>

record Adapter =
  options :: "LogOption list"
  close_result :: "err option"

subsection \<open>Runners, closers and the application\<close>

text \<open>
  A runner is implemented by the caller. The supervisor uses its dynamic type (the \<^verbatim>\<open>%T\<close> of
  the error message) and whatever its \<^verbatim>\<open>Run(ctx)\<close> returns; the latter is supplied by the
  environment when the runner returns (see \<open>Run\<close> below).
\<close>

record Runner =
  rtype :: string

text \<open>
  A closer is implemented by the caller too: its dynamic type and what \<^verbatim>\<open>Close()\<close> returns.
\<close>

record Closer =
  ctype :: string
  cerr :: "err option"

text \<open>The logger seen through the \<^verbatim>\<open>Closer\<close> interface.\<close>

definition closer_of :: "Adapter \<Rightarrow> Closer" where
  "closer_of lg = \<lparr>ctype = ''*log.Adapter'', cerr = close_result lg\<rparr>"

text \<open>
  What the application does to the outside, in program order: the call of the cancel
  function, the call of \<^verbatim>\<open>a.closers[i].Close()\<close> (with the closer's type), and the call of
  \<^verbatim>\<open>a.logger.Error\<close> with the error and the \<^verbatim>\<open>closer\<close> field.
\<close>

datatype event = EvCancel | EvClose nat string | EvLogError err string

text \<open>
  Modelled from the spec: the concurrency group (\<^verbatim>\<open>errgroup.Group\<close>, a dependency that is
  not part of the repository). It tracks the outstanding goroutines started with \<^verbatim>\<open>Go\<close>
  and latches the first non-nil error: \<open>g_active\<close> lists the goroutines that have been
  started and have not returned (the wait counter is its length), \<open>g_err\<close> is the latch.
\<close>

record Group =
  g_err :: "err option"
  g_active :: "nat list"

text \<open>
  \<open>parent_done\<close> is the state of the context made by \<^verbatim>\<open>context.WithCancel\<close> (line 50), which
  \<^verbatim>\<open>a.cancel\<close> cancels; \<open>ctx_done\<close> is the state of \<^verbatim>\<open>a.ctx\<close>, the context derived from it by
  \<^verbatim>\<open>errgroup.WithContext\<close> (line 51) and handed to every runner. \<open>history\<close> records the
  events above.
\<close>

record Application =
  cfg :: Config
  logger :: Adapter
  parent_done :: bool
  ctx_done :: bool
  group :: Group
  runners :: "Runner list"
  closers :: "Closer list"
  history :: "event list"

definition New :: "bool \<Rightarrow> (err + Config) \<Rightarrow> (LogOption list \<Rightarrow> err + Adapter) \<Rightarrow> err + Application" where
  "New isDev config_New log_New =
     (case config_New of
        Inl e \<Rightarrow> Inl (WithMessage e ''create config'')
      | Inr c \<Rightarrow>
          (let loggerOpts =
                 (if \<not> isDev then
                    (let logFilePath = OptionalString c ''LOGFILE.PATH'' []
                     in if logFilePath \<noteq> []
                        then [WithLevel InfoLevel] @
                             [WithFileRotation
                                \<lparr>File = logFilePath,
                                 MaxSizeMb = OptionalInt c ''LOGFILE.MAXSIZEMB'' 512,
                                 MaxDays = 0,
                                 MaxBackups = OptionalInt c ''LOGFILE.MAXBACKUPS'' 4,
                                 Compress = OptionalBool c ''LOGFILE.COMPRESS'' True\<rparr>]
                        else [WithLevel InfoLevel])
                  else [WithDevelopmentMode, WithLevel DebugLevel])
           in case log_New loggerOpts of
                Inl e \<Rightarrow> Inl (WithMessage e ''create logger'')
              | Inr lg \<Rightarrow>
                  Inr \<lparr>cfg = c, logger = lg, parent_done = False, ctx_done = False,
                       group = \<lparr>g_err = None, g_active = []\<rparr>,
                       runners = [], closers = [closer_of lg], history = []\<rparr>))"

definition AddRunners :: "Runner list \<Rightarrow> Application \<Rightarrow> Application" where
  "AddRunners rs a = a\<lparr>runners := runners a @ rs\<rparr>"

definition AddClosers :: "Closer list \<Rightarrow> Application \<Rightarrow> Application" where
  "AddClosers cs a = a\<lparr>closers := closers a @ cs\<rparr>"

subsection \<open>Run\<close>

text \<open>
  The function handed to \<^verbatim>\<open>a.group.Go\<close> (lines 86 to 92), applied to what
  \<^verbatim>\<open>runner.Run(a.ctx)\<close> returned: \<^verbatim>\<open>errors.WithMessagef(err, "start runner[%T]", runner)\<close>.
\<close>

definition runner_func :: "Runner \<Rightarrow> err option \<Rightarrow> err option" where
  "runner_func runner r =
     (case r of
        Some e \<Rightarrow> Some (WithMessage e (''start runner['' @ rtype runner @ '']''))
      | None \<Rightarrow> None)"

text \<open>
  Modelled from the spec: \<^verbatim>\<open>Go\<close> of the concurrency group counts one more outstanding
  goroutine and starts it.
\<close>

definition group_Go :: "nat \<Rightarrow> Application \<Rightarrow> Application" where
  "group_Go i a = a\<lparr>group := (group a)\<lparr>g_active := g_active (group a) @ [i]\<rparr>\<rparr>"

text \<open>
  Modelled from the spec: what the group does when the function of goroutine \<open>i\<close> returns
  \<open>r\<close>. A non-nil error is recorded if it is the first one, and recording it cancels the
  group's context; later errors are dropped. Then the goroutine is no longer outstanding.
\<close>

definition group_done :: "nat \<Rightarrow> err option \<Rightarrow> Application \<Rightarrow> Application" where
  "group_done i r a =
     (let a1 = (case r of
                  None \<Rightarrow> a
                | Some e \<Rightarrow>
                    (case g_err (group a) of
                       Some first \<Rightarrow> a
                     | None \<Rightarrow> a\<lparr>group := (group a)\<lparr>g_err := Some e\<rparr>, ctx_done := True\<rparr>))
      in a1\<lparr>group := (group a1)\<lparr>g_active := remove1 i (g_active (group a1))\<rparr>\<rparr>)"

text \<open>
  Modelled from the spec: \<^verbatim>\<open>Wait\<close> blocks while a goroutine is outstanding (\<open>None\<close>: it has
  not returned); once none is, it cancels the group's context and returns the latch.
\<close>

definition group_Wait :: "Application \<Rightarrow> (err option \<times> Application) option" where
  "group_Wait a =
     (if g_active (group a) = [] then Some (g_err (group a), a\<lparr>ctx_done := True\<rparr>)
      else None)"

text \<open>The loop of \<^verbatim>\<open>Run\<close> (lines 84 to 93): one goroutine per registered runner.\<close>

definition start_runners :: "Application \<Rightarrow> Application" where
  "start_runners a = fold group_Go [0..<length (runners a)] a"

text \<open>
  The goroutines return in an order the program does not control. An arrival \<open>(i, r)\<close>
  says that the runner registered at position \<open>i\<close> has returned \<open>r\<close> from \<^verbatim>\<open>Run(a.ctx)\<close>;
  the list of arrivals is the order in which the returns reach the group. An arrival for
  a goroutine that is not outstanding cannot happen and is skipped.
\<close>

fun arrive :: "(nat \<times> err option) list \<Rightarrow> Application \<Rightarrow> Application" where
  "arrive [] a = a"
| "arrive ((i, r) # rest) a =
     (if i \<in> set (g_active (group a))
      then arrive rest (group_done i (runner_func (runners a ! i) r) a)
      else arrive rest a)"

text \<open>
  \<^verbatim>\<open>Run\<close>: start every runner, then \<^verbatim>\<open>a.group.Wait()\<close>. The result is \<open>None\<close> when the
  arrivals leave a goroutine outstanding: \<^verbatim>\<open>Run\<close> is still blocked. Otherwise it is the
  error returned together with the state the application is left in.
\<close>

definition Run :: "Application \<Rightarrow> (nat \<times> err option) list \<Rightarrow> (err option \<times> Application) option" where
  "Run a arrivals = group_Wait (arrive arrivals (start_runners a))"

subsection \<open>Shutdown\<close>

text \<open>
  Modelled from the spec: the cancel function of \<^verbatim>\<open>context.WithCancel\<close> (standard library).
  It cancels the context and every context derived from it; cancellation is irreversible,
  and triggering it again changes nothing.
\<close>

definition cancel :: "Application \<Rightarrow> Application" where
  "cancel a = a\<lparr>parent_done := True, ctx_done := True\<rparr>"

definition record_event :: "event \<Rightarrow> Application \<Rightarrow> Application" where
  "record_event e a = a\<lparr>history := history a @ [e]\<rparr>"

text \<open>\<^verbatim>\<open>a.logger.Error(a.ctx, err, log.String("closer", fmt.Sprintf("%T", closer)))\<close>\<close>

definition logger_Error :: "err \<Rightarrow> string \<Rightarrow> Application \<Rightarrow> Application" where
  "logger_Error e closer_type a = record_event (EvLogError e closer_type) a"

text \<open>The loop \<^verbatim>\<open>for i := 0; i < len(a.closers); i++\<close> of \<^verbatim>\<open>Shutdown\<close>, from index \<open>i\<close> on.\<close>

function closers_loop :: "nat \<Rightarrow> Application \<Rightarrow> Application" where
  "closers_loop i a =
     (if i < length (closers a) then
        (let closer = closers a ! i;
             a1 = record_event (EvClose i (ctype closer)) a;
             err = cerr closer;
             a2 = (case err of
                     Some e \<Rightarrow> logger_Error e (ctype closer) a1
                   | None \<Rightarrow> a1)
         in closers_loop (i + 1) a2)
      else a)"
  by pat_completeness auto
termination
  by (relation "measure (\<lambda>(i, a). length (closers a) - i)")
     (auto simp: record_event_def logger_Error_def split: option.splits)

definition Shutdown :: "Application \<Rightarrow> Application" where
  "Shutdown a = closers_loop 0 (record_event EvCancel (cancel a))"

text \<open>The events a call adds to the history.\<close>

definition emitted :: "Application \<Rightarrow> Application \<Rightarrow> event list" where
  "emitted a a' = drop (length (history a)) (history a')"

fun is_close :: "event \<Rightarrow> bool" where
  "is_close (EvClose i t) = True"
| "is_close e = False"

fun is_log :: "event \<Rightarrow> bool" where
  "is_log (EvLogError e t) = True"
| "is_log e = False"

text \<open>
  What the pass of the loop for index \<open>j\<close> emits: the call of \<^verbatim>\<open>Close()\<close>, and the call
  of the logger when \<^verbatim>\<open>Close()\<close> returned an error.
\<close>

definition closer_events :: "Closer list \<Rightarrow> nat \<Rightarrow> event list" where
  "closer_events cs j =
     EvClose j (ctype (cs ! j)) #
     (case cerr (cs ! j) of
        Some e \<Rightarrow> [EvLogError e (ctype (cs ! j))]
      | None \<Rightarrow> [])"

subsection \<open>Vocabulary of the properties\<close>

text \<open>
  The application has not been run: the group has no outstanding goroutine and no error,
  as \<open>New\<close> leaves it.
\<close>

definition idle :: "Application \<Rightarrow> bool" where
  "idle a \<longleftrightarrow> g_err (group a) = None \<and> g_active (group a) = []"

text \<open>Every registered runner returns, and returns once: the arrivals name each position once.\<close>

definition all_returned :: "Application \<Rightarrow> (nat \<times> err option) list \<Rightarrow> bool" where
  "all_returned a arrivals \<longleftrightarrow> sort (map fst arrivals) = [0..<length (runners a)]"

text \<open>The first non-nil result among the arrivals, as the function of its goroutine returns it.\<close>

fun first_error :: "Runner list \<Rightarrow> (nat \<times> err option) list \<Rightarrow> err option" where
  "first_error rs [] = None"
| "first_error rs ((i, r) # rest) =
     (case runner_func (rs ! i) r of
        Some e \<Rightarrow> Some e
      | None \<Rightarrow> first_error rs rest)"

text \<open>
  The calls a program makes on an application. A \<^verbatim>\<open>Run\<close> that is still blocked leaves the
  application with the arrivals so far.
\<close>

datatype call =
    CallAddRunners "Runner list"
  | CallAddClosers "Closer list"
  | CallRun "(nat \<times> err option) list"
  | CallShutdown

fun perform :: "call \<Rightarrow> Application \<Rightarrow> Application" where
  "perform (CallAddRunners rs) a = AddRunners rs a"
| "perform (CallAddClosers cs) a = AddClosers cs a"
| "perform (CallRun arrivals) a =
     (case Run a arrivals of
        Some (r, a') \<Rightarrow> a'
      | None \<Rightarrow> arrive arrivals (start_runners a))"
| "perform CallShutdown a = Shutdown a"

subsection \<open>Concrete applications\<close>

text \<open>A configuration with no optional key set, and loggers whose \<^verbatim>\<open>Close()\<close> succeeds or fails.\<close>

definition no_config :: Config where
  "no_config = \<lparr>OptionalString = (\<lambda>key d. d), OptionalInt = (\<lambda>key d. d), OptionalBool = (\<lambda>key d. d)\<rparr>"

definition good_logger :: "LogOption list \<Rightarrow> err + Adapter" where
  "good_logger opts = Inr \<lparr>options = opts, close_result = None\<rparr>"

definition bad_logger :: "LogOption list \<Rightarrow> err + Adapter" where
  "bad_logger opts = Inr \<lparr>options = opts, close_result = Some ''sync /dev/stderr: invalid argument''\<rparr>"

definition dev_app :: "err option \<Rightarrow> Application" where
  "dev_app c =
     \<lparr>cfg = no_config,
      logger = \<lparr>options = [WithDevelopmentMode, WithLevel DebugLevel], close_result = c\<rparr>,
      parent_done = False, ctx_done = False,
      group = \<lparr>g_err = None, g_active = []\<rparr>,
      runners = [],
      closers = [\<lparr>ctype = ''*log.Adapter'', cerr = c\<rparr>],
      history = []\<rparr>"

definition three_runners :: "Runner list" where
  "three_runners = [\<lparr>rtype = ''*grpcs.Server''\<rparr>, \<lparr>rtype = ''*https.Server''\<rparr>, \<lparr>rtype = ''*metrics.Server''\<rparr>]"

definition three_closers :: "Closer list" where
  "three_closers =
     [\<lparr>ctype = ''*db.Client'', cerr = None\<rparr>,
      \<lparr>ctype = ''*files.Store'', cerr = Some ''disk full''\<rparr>,
      \<lparr>ctype = ''*mq.Client'', cerr = None\<rparr>]"

section \<open>Properties of the address parser\<close>

lemma Split_not_Nil: "Split s sep \<noteq> []"
  by (induction s) (auto split: list.splits)

lemma length_Split: "length (Split s sep) = Suc (count_list s sep)"
proof (induction s)
  case Nil
  show ?case by simp
next
  case (Cons c cs)
  then show ?case
    using Split_not_Nil [of cs sep] by (cases "Split cs sep") auto
qed

lemma join_loop_eq:
  "i + length hosts \<le> length ports \<Longrightarrow>
   join_loop ports i hosts arr = arr @ map2 JoinHostPort hosts (drop i ports)"
proof (induction hosts arbitrary: i arr)
  case Nil
  show ?case by simp
next
  case (Cons host rest)
  from Cons.prems have lt: "i < length ports" by simp
  from Cons.prems have "Suc i + length rest \<le> length ports" by simp
  from Cons.IH [OF this]
  have "join_loop ports (Suc i) rest (arr @ [JoinHostPort host (ports ! i)]) =
        (arr @ [JoinHostPort host (ports ! i)]) @ map2 JoinHostPort rest (drop (Suc i) ports)" .
  moreover have "drop i ports = ports ! i # drop (Suc i) ports"
    using lt by (simp add: Cons_nth_drop_Suc)
  ultimately show ?case by simp
qed

lemma parse_ok:
  fixes c :: ConfigServiceAddr
  shows
  "length (Split (IP c) CHR '';'') = length (Split (Port c) CHR '';'') \<Longrightarrow>
   parseConfigServiceHosts c =
     Inr (map2 JoinHostPort (Split (IP c) CHR '';'') (Split (Port c) CHR '';''))"
  by (simp add: parseConfigServiceHosts_def Let_def join_loop_eq)

text \<open>
  C10 (as the code has it). \<open>parseConfigServiceHosts\<close> returns an error exactly when the
  \<open>IP\<close> field and the \<open>Port\<close> field have different numbers of \<open>;\<close>-separated segments
  (one more than the number of semicolons in each). Otherwise it returns one address per
  segment, in order; the i-th address is \<open>net.JoinHostPort\<close> of the i-th host and the i-th
  port: \<open>host:port\<close> when the host has no colon, and \<open>[host]:port\<close> when it has one.
\<close>

theorem parseConfigServiceHosts_spec:
  fixes c :: ConfigServiceAddr
  shows
  "(isl (parseConfigServiceHosts c) \<longleftrightarrow>
      length (Split (IP c) CHR '';'') \<noteq> length (Split (Port c) CHR '';'')) \<and>
   (isl (parseConfigServiceHosts c) \<longleftrightarrow>
      count_list (IP c) CHR '';'' \<noteq> count_list (Port c) CHR '';'') \<and>
   (length (Split (IP c) CHR '';'') = length (Split (Port c) CHR '';'') \<longrightarrow>
      (\<exists>arr. parseConfigServiceHosts c = Inr arr \<and>
         length arr = length (Split (IP c) CHR '';'') \<and>
         (\<forall>i < length arr.
            arr ! i =
              (let host = Split (IP c) CHR '';'' ! i;
                   port = Split (Port c) CHR '';'' ! i
               in if CHR '':'' \<in> set host then ''['' @ host @ '']:'' @ port
                  else host @ '':'' @ port))))"
proof (cases "length (Split (IP c) CHR '';'') = length (Split (Port c) CHR '';'')")
  case True
  have cnt: "count_list (IP c) CHR '';'' = count_list (Port c) CHR '';''"
    using True by (simp add: length_Split)
  have elems: "\<forall>i < length (Split (IP c) CHR '';'').
      map2 JoinHostPort (Split (IP c) CHR '';'') (Split (Port c) CHR '';'') ! i =
        (let host = Split (IP c) CHR '';'' ! i;
             port = Split (Port c) CHR '';'' ! i
         in if CHR '':'' \<in> set host then ''['' @ host @ '']:'' @ port
            else host @ '':'' @ port)"
    using True by (simp add: JoinHostPort_def Let_def)
  show ?thesis
    using True cnt elems by (simp add: parse_ok)
next
  case False
  have cnt: "count_list (IP c) CHR '';'' \<noteq> count_list (Port c) CHR '';''"
    using False by (simp add: length_Split)
  show ?thesis
    using False cnt by (simp add: parseConfigServiceHosts_def Let_def)
qed

theorem parseConfigServiceHosts_spec_witness:
  "length (Split (IP \<lparr>IP = ''a;::1'', Port = ''1;2''\<rparr>) CHR '';'') =
     length (Split (Port \<lparr>IP = ''a;::1'', Port = ''1;2''\<rparr>) CHR '';'') \<and>
   parseConfigServiceHosts \<lparr>IP = ''a;::1'', Port = ''1;2''\<rparr> = Inr [''a:1'', ''[::1]:2''] \<and>
   (1::nat) < length [''a:1'', ''[::1]:2''] \<and>
   isl (parseConfigServiceHosts \<lparr>IP = ''a;b'', Port = ''1''\<rparr>)"
  using parseConfigServiceHosts_spec [of "\<lparr>IP = ''a;::1'', Port = ''1;2''\<rparr>"]
    parseConfigServiceHosts_spec [of "\<lparr>IP = ''a;b'', Port = ''1''\<rparr>"]
  by (simp add: parseConfigServiceHosts_def JoinHostPort_def)

text \<open>
  The claim as written asks for \<open>host:port\<close> in every case. For the IPv6 loopback address
  the code returns the bracketed form instead.
\<close>

theorem parseConfigServiceHosts_host_port_counterexample:
  "parseConfigServiceHosts \<lparr>IP = ''::1'', Port = ''9000''\<rparr> = Inr [''[::1]:9000''] \<and>
   parseConfigServiceHosts \<lparr>IP = ''::1'', Port = ''9000''\<rparr> \<noteq> Inr [''::1'' @ '':'' @ ''9000'']"
  by (simp add: parseConfigServiceHosts_def JoinHostPort_def)

section \<open>Properties of the supervisor\<close>

subsection \<open>The closer loop\<close>

lemma closers_loop_eq:
  "closers_loop i a =
     a\<lparr>history := history a @ concat (map (closer_events (closers a)) [i..<length (closers a)])\<rparr>"
proof (induction i a rule: closers_loop.induct)
  case (1 i a)
  show ?case
  proof (cases "i < length (closers a)")
    case False
    then show ?thesis by simp
  next
    case True
    define a2 where "a2 = (case cerr (closers a ! i) of
                     Some e \<Rightarrow> logger_Error e (ctype (closers a ! i)) (record_event (EvClose i (ctype (closers a ! i))) a)
                   | None \<Rightarrow> record_event (EvClose i (ctype (closers a ! i))) a)"
    have a2: "a2 = a\<lparr>history := history a @ closer_events (closers a) i\<rparr>"
      by (simp add: a2_def closer_events_def record_event_def logger_Error_def split: option.splits)
    have step: "closers_loop i a = closers_loop (i + 1) a2"
      using True by (subst closers_loop.simps) (simp add: a2_def Let_def)
    have IH: "closers_loop (i + 1) a2 =
       a2\<lparr>history := history a2 @ concat (map (closer_events (closers a2)) [i + 1..<length (closers a2)])\<rparr>"
      using "1.IH" [OF True refl refl refl a2_def] .
    have ce: "closers a2 = closers a"
      by (simp add: a2)
    have upt: "[i..<length (closers a)] = i # [i + 1..<length (closers a)]"
      using True by (simp add: upt_conv_Cons)
    show ?thesis
      unfolding step IH ce by (simp add: a2 upt)
  qed
qed

lemma Shutdown_eq:
  "Shutdown a =
     a\<lparr>parent_done := True, ctx_done := True,
       history := history a @ EvCancel # concat (map (closer_events (closers a)) [0..<length (closers a)])\<rparr>"
proof -
  have ce: "closers (record_event EvCancel (cancel a)) = closers a"
    by (simp add: record_event_def cancel_def)
  show ?thesis
    unfolding Shutdown_def closers_loop_eq ce
    by (simp add: record_event_def cancel_def)
qed

subsection \<open>The group\<close>

lemma fold_group_Go:
  "fold group_Go xs a = a\<lparr>group := (group a)\<lparr>g_active := g_active (group a) @ xs\<rparr>\<rparr>"
  by (induction xs arbitrary: a) (simp_all add: group_Go_def)

lemma start_runners_eq:
  "start_runners a =
     a\<lparr>group := (group a)\<lparr>g_active := g_active (group a) @ [0..<length (runners a)]\<rparr>\<rparr>"
  by (simp add: start_runners_def fold_group_Go)

lemma group_done_fields:
  "runners (group_done i r a) = runners a"
  "closers (group_done i r a) = closers a"
  "logger (group_done i r a) = logger a"
  "history (group_done i r a) = history a"
  "g_active (group (group_done i r a)) = remove1 i (g_active (group a))"
  by (simp_all add: group_done_def Let_def split: option.splits)

lemma group_done_err:
  "g_err (group (group_done i r a)) =
     (case g_err (group a) of Some e \<Rightarrow> Some e | None \<Rightarrow> r)"
  by (simp add: group_done_def Let_def split: option.splits)


lemma arrive_fields:
  "runners (arrive evs a) = runners a \<and> closers (arrive evs a) = closers a \<and>
   logger (arrive evs a) = logger a \<and> history (arrive evs a) = history a"
  by (induction evs a rule: arrive.induct) (simp_all add: group_done_fields)

lemma arrive_keeps_active:
  "i \<in> set (g_active (group a)) \<Longrightarrow> i \<notin> fst ` set evs \<Longrightarrow>
   i \<in> set (g_active (group (arrive evs a)))"
proof (induction evs a rule: arrive.induct)
  case (1 a)
  then show ?case by simp
next
  case (2 j r rest a)
  from "2.prems" have ne: "i \<noteq> j" and rest: "i \<notin> fst ` set rest" by auto
  show ?case
  proof (cases "j \<in> set (g_active (group a))")
    case True
    have "i \<in> set (g_active (group (group_done j (runner_func (runners a ! j) r) a)))"
      using "2.prems"(1) ne by (simp add: group_done_fields)
    from "2.IH"(1) [OF True this rest] True show ?thesis by simp
  next
    case False
    from "2.IH"(2) [OF False "2.prems"(1) rest] False show ?thesis by simp
  qed
qed

lemma arrive_active_subset:
  "distinct (g_active (group a)) \<Longrightarrow>
   set (g_active (group (arrive evs a))) \<subseteq> set (g_active (group a)) - fst ` set evs"
proof (induction evs a rule: arrive.induct)
  case (1 a)
  then show ?case by simp
next
  case (2 j r rest a)
  show ?case
  proof (cases "j \<in> set (g_active (group a))")
    case True
    let ?a1 = "group_done j (runner_func (runners a ! j) r) a"
    have d: "distinct (g_active (group ?a1))"
      using "2.prems" by (simp add: group_done_fields)
    have s: "set (g_active (group ?a1)) = set (g_active (group a)) - {j}"
      using "2.prems" by (simp add: group_done_fields)
    from "2.IH"(1) [OF True d] s True show ?thesis by auto
  next
    case False
    from "2.IH"(2) [OF False "2.prems"] False show ?thesis by auto
  qed
qed

lemma arrive_err:
  "distinct (map fst evs) \<Longrightarrow> fst ` set evs \<subseteq> set (g_active (group a)) \<Longrightarrow>
   g_err (group (arrive evs a)) =
     (case g_err (group a) of Some e \<Rightarrow> Some e | None \<Rightarrow> first_error (runners a) evs)"
proof (induction evs a rule: arrive.induct)
  case (1 a)
  then show ?case by (simp split: option.splits)
next
  case (2 j r rest a)
  from "2.prems" have act: "j \<in> set (g_active (group a))" by simp
  let ?a1 = "group_done j (runner_func (runners a ! j) r) a"
  from "2.prems" have d: "distinct (map fst rest)" and nj: "j \<notin> fst ` set rest" by auto
  have sub: "fst ` set rest \<subseteq> set (g_active (group ?a1))"
  proof
    fix k assume k: "k \<in> fst ` set rest"
    with nj have "k \<noteq> j" by auto
    moreover from k "2.prems"(2) have "k \<in> set (g_active (group a))" by auto
    ultimately show "k \<in> set (g_active (group ?a1))" by (simp add: group_done_fields)
  qed
  from "2.IH"(1) [OF act d sub] act
  show ?case by (simp add: group_done_err group_done_fields split: option.splits)
qed

lemma all_returned_facts:
  assumes "all_returned a evs"
  shows "distinct (map fst evs)" and "fst ` set evs = {0..<length (runners a)}"
proof -
  from assms have s: "sort (map fst evs) = [0..<length (runners a)]"
    by (simp add: all_returned_def)
  have "distinct (sort (map fst evs))" unfolding s by simp
  then show "distinct (map fst evs)" by simp
  have "set (sort (map fst evs)) = {0..<length (runners a)}" unfolding s by simp
  then show "fst ` set evs = {0..<length (runners a)}" by simp
qed

lemma Run_returns:
  assumes "idle a" and "all_returned a evs"
  shows "\<exists>a'. Run a evs = Some (first_error (runners a) evs, a')"
proof -
  let ?s = "start_runners a"
  have act: "g_active (group ?s) = [0..<length (runners a)]"
    using assms(1) by (simp add: start_runners_eq idle_def)
  have err0: "g_err (group ?s) = None"
    using assms(1) by (simp add: start_runners_eq idle_def)
  have rs: "runners ?s = runners a" by (simp add: start_runners_eq)
  have d: "distinct (g_active (group ?s))" by (simp add: act)
  from arrive_active_subset [OF d, of evs] all_returned_facts(2) [OF assms(2)]
  have "set (g_active (group (arrive evs ?s))) \<subseteq> {}" by (simp add: act)
  then have empty: "g_active (group (arrive evs ?s)) = []" by simp
  have sub: "fst ` set evs \<subseteq> set (g_active (group ?s))"
    using all_returned_facts(2) [OF assms(2)] by (auto simp: act)
  from arrive_err [OF all_returned_facts(1) [OF assms(2)] sub]
  have "g_err (group (arrive evs ?s)) = first_error (runners a) evs"
    by (simp add: err0 rs)
  with empty show ?thesis by (simp add: Run_def group_Wait_def)
qed

lemma Run_blocked:
  assumes "i < length (runners a)" and "i \<notin> fst ` set evs"
  shows "Run a evs = None"
proof -
  have "i \<in> set (g_active (group (start_runners a)))"
    using assms(1) by (simp add: start_runners_eq)
  from arrive_keeps_active [OF this assms(2)]
  have "g_active (group (arrive evs (start_runners a))) \<noteq> []" by auto
  then show ?thesis by (simp add: Run_def group_Wait_def)
qed

lemma first_error_append:
  "first_error rs (pre @ post) =
     (case first_error rs pre of Some e \<Rightarrow> Some e | None \<Rightarrow> first_error rs post)"
  by (induction rs pre rule: first_error.induct) (simp_all split: option.splits)

lemma first_error_all_nil:
  "\<forall>x \<in> set pre. snd x = None \<Longrightarrow> first_error rs pre = None"
  by (induction rs pre rule: first_error.induct) (simp_all add: runner_func_def)

subsection \<open>Shutdown and New\<close>

lemma emitted_Shutdown:
  "emitted a (Shutdown a) = EvCancel # concat (map (closer_events (closers a)) [0..<length (closers a)])"
  by (simp add: emitted_def Shutdown_eq)

lemma filter_close_events:
  "filter is_close (concat (map (closer_events cs) xs)) = map (\<lambda>i. EvClose i (ctype (cs ! i))) xs"
  by (induction xs) (simp_all add: closer_events_def split: option.splits)

lemma Shutdown_fields:
  "group (Shutdown a) = group a"
  "closers (Shutdown a) = closers a"
  "runners (Shutdown a) = runners a"
  "logger (Shutdown a) = logger a"
  "ctx_done (Shutdown a)"
  "parent_done (Shutdown a)"
  by (simp_all add: Shutdown_eq)

text \<open>
  C5. Whatever closers are registered and whatever each \<^verbatim>\<open>Close()\<close> returns, one call of
  \<open>Shutdown\<close> calls \<^verbatim>\<open>Close()\<close> on every entry of the closer list once, one after the
  other, in the order of the list; \<open>AddClosers\<close> appends, so this is the order of
  registration. An error of an earlier closer does not stop the loop.
\<close>

theorem Shutdown_closes_each_once_in_order:
  "closers (AddClosers cs a) = closers a @ cs \<and>
   filter is_close (emitted a (Shutdown a)) =
     map (\<lambda>i. EvClose i (ctype (closers a ! i))) [0..<length (closers a)] \<and>
   filter is_close (emitted (AddClosers cs a) (Shutdown (AddClosers cs a))) =
     map (\<lambda>i. EvClose i (ctype ((closers a @ cs) ! i))) [0..<length (closers a) + length cs]"
  by (simp add: emitted_Shutdown filter_close_events AddClosers_def)

theorem Shutdown_closes_each_once_in_order_witness:
  "filter is_close
     (emitted (AddClosers three_closers (dev_app None))
        (Shutdown (AddClosers three_closers (dev_app None)))) =
   [EvClose 0 ''*log.Adapter'', EvClose 1 ''*db.Client'', EvClose 2 ''*files.Store'',
    EvClose 3 ''*mq.Client'']"
  using Shutdown_closes_each_once_in_order [of three_closers "dev_app None"]
  by (simp add: dev_app_def three_closers_def upt_conv_Cons)

text \<open>
  C6. When the closer at position \<open>i\<close> returns the error \<open>e\<close>, \<open>Shutdown\<close> calls the logger
  with \<open>e\<close> and the closer's type right after that \<^verbatim>\<open>Close()\<close>, and then still closes every
  closer after position \<open>i\<close>, in order. \<open>Shutdown\<close> has no error result; it leaves the
  group (and with it the error \<open>Run\<close> returns), the closers and the runners unchanged.
\<close>

theorem Shutdown_logs_closer_error_and_goes_on:
  assumes "i < length (closers a)" and "cerr (closers a ! i) = Some e"
  shows "\<exists>before after.
           emitted a (Shutdown a) =
             before @ EvClose i (ctype (closers a ! i)) #
                      EvLogError e (ctype (closers a ! i)) # after \<and>
           filter is_close after =
             map (\<lambda>j. EvClose j (ctype (closers a ! j))) [Suc i..<length (closers a)] \<and>
           group (Shutdown a) = group a \<and> closers (Shutdown a) = closers a \<and>
           runners (Shutdown a) = runners a"
proof -
  let ?n = "length (closers a)"
  let ?ev = "closer_events (closers a)"
  have upt: "[0..<?n] = [0..<i] @ i # [Suc i..<?n]"
    using assms(1) by (metis le0 upt_add_eq_append upt_conv_Cons le_add_diff_inverse less_imp_le)
  have at_i: "?ev i = [EvClose i (ctype (closers a ! i)), EvLogError e (ctype (closers a ! i))]"
    using assms(2) by (simp add: closer_events_def)
  have "emitted a (Shutdown a) =
          (EvCancel # concat (map ?ev [0..<i])) @
          EvClose i (ctype (closers a ! i)) # EvLogError e (ctype (closers a ! i)) #
          concat (map ?ev [Suc i..<?n])"
    unfolding emitted_Shutdown by (subst upt) (simp add: at_i)
  moreover have "filter is_close (concat (map ?ev [Suc i..<?n])) =
          map (\<lambda>j. EvClose j (ctype (closers a ! j))) [Suc i..<?n]"
    by (rule filter_close_events)
  ultimately show ?thesis
    using Shutdown_fields(1-3) [of a] by blast
qed

theorem Shutdown_logs_closer_error_and_goes_on_witness:
  "(2::nat) < length (closers (AddClosers three_closers (dev_app None))) \<and>
   cerr (closers (AddClosers three_closers (dev_app None)) ! 2) = Some ''disk full'' \<and>
   emitted (AddClosers three_closers (dev_app None))
       (Shutdown (AddClosers three_closers (dev_app None))) =
     [EvCancel, EvClose 0 ''*log.Adapter'', EvClose 1 ''*db.Client''] @
     EvClose 2 ''*files.Store'' # EvLogError ''disk full'' ''*files.Store'' #
     [EvClose 3 ''*mq.Client'']"
  using Shutdown_logs_closer_error_and_goes_on
          [of 2 "AddClosers three_closers (dev_app None)" "''disk full''"]
  by (simp add: emitted_Shutdown AddClosers_def dev_app_def three_closers_def
        closer_events_def upt_conv_Cons)

lemma Run_result_state:
  "Run a arrivals = Some (r, a') \<Longrightarrow> a' = (arrive arrivals (start_runners a))\<lparr>ctx_done := True\<rparr>"
  by (auto simp add: Run_def group_Wait_def split: if_splits)

text \<open>
  C7. \<open>Shutdown\<close> always calls the cancel function first: the first event it emits is the
  cancellation, every \<^verbatim>\<open>Close()\<close> comes after it, and both contexts are cancelled
  afterwards. Cancelling twice is the same as cancelling once; cancelling when \<^verbatim>\<open>a.ctx\<close>
  is already cancelled leaves \<^verbatim>\<open>a.ctx\<close> and everything but the parent context's own flag
  unchanged, and this is the case after \<open>Run\<close> has returned.
\<close>

theorem Shutdown_cancels_first:
  "(\<exists>rest. emitted a (Shutdown a) = EvCancel # rest \<and>
           filter is_close rest = filter is_close (emitted a (Shutdown a)) \<and>
           EvCancel \<notin> set rest) \<and>
   ctx_done (Shutdown a) \<and> parent_done (Shutdown a) \<and>
   cancel (cancel a) = cancel a \<and>
   (ctx_done a \<longrightarrow> cancel a = a\<lparr>parent_done := True\<rparr>) \<and>
   (parent_done a \<and> ctx_done a \<longrightarrow> cancel a = a) \<and>
   (\<forall>r a'. Run a arrivals = Some (r, a') \<longrightarrow> ctx_done a' \<and> cancel a' = a'\<lparr>parent_done := True\<rparr>)"
proof -
  let ?rest = "concat (map (closer_events (closers a)) [0..<length (closers a)])"
  have no_cancel: "EvCancel \<notin> set (concat (map (closer_events cs) xs))" for cs xs
    by (induction xs) (auto simp: closer_events_def split: option.splits)
  have 1: "\<exists>rest. emitted a (Shutdown a) = EvCancel # rest \<and>
           filter is_close rest = filter is_close (emitted a (Shutdown a)) \<and>
           EvCancel \<notin> set rest"
    using no_cancel [of "closers a" "[0..<length (closers a)]"]
    by (simp add: emitted_Shutdown)
  have 2: "cancel (cancel a) = cancel a"
    by (simp add: cancel_def)
  have 3: "ctx_done a \<longrightarrow> cancel a = a\<lparr>parent_done := True\<rparr>"
    by (simp add: cancel_def)
  have 4: "parent_done a \<and> ctx_done a \<longrightarrow> cancel a = a"
    by (simp add: cancel_def)
  have 5: "\<forall>r a'. Run a arrivals = Some (r, a') \<longrightarrow> ctx_done a' \<and> cancel a' = a'\<lparr>parent_done := True\<rparr>"
    by (auto dest!: Run_result_state simp: cancel_def)
  show ?thesis
    using 1 2 3 4 5 Shutdown_fields(5,6) [of a] by blast
qed

theorem Shutdown_cancels_first_witness:
  "emitted (dev_app None) (Shutdown (dev_app None)) = [EvCancel, EvClose 0 ''*log.Adapter''] \<and>
   ctx_done (Shutdown (dev_app None)) \<and>
   Run (dev_app None) [] = Some (None, (dev_app None)\<lparr>ctx_done := True\<rparr>) \<and>
   ctx_done ((dev_app None)\<lparr>ctx_done := True\<rparr>) \<and>
   cancel ((dev_app None)\<lparr>ctx_done := True\<rparr>) = (dev_app None)\<lparr>ctx_done := True, parent_done := True\<rparr> \<and>
   parent_done (cancel (dev_app None)) \<and> ctx_done (cancel (dev_app None)) \<and>
   cancel (cancel (dev_app None)) = cancel (dev_app None)"
  using Shutdown_cancels_first [of "dev_app None" "[]"]
    Shutdown_cancels_first [of "(dev_app None)\<lparr>ctx_done := True\<rparr>" "[]"]
  by (simp add: emitted_Shutdown dev_app_def closer_events_def Run_def group_Wait_def
        start_runners_def cancel_def)

lemma New_Inr:
  assumes "New isDev config_New log_New = Inr a"
  shows "closers a = [closer_of (logger a)]" and "runners a = []" and "idle a"
    and "history a = []" and "\<not> ctx_done a" and "\<not> parent_done a"
  using assms
  by (auto simp: New_def Let_def idle_def split: sum.splits if_splits)

text \<open>
  C8 (as the code has it). On an application as \<open>New\<close> returns it, with no runner and no
  closer registered, \<open>Run\<close> returns at once (with no arrival) the nil error. \<open>Shutdown\<close>
  cancels and then closes the logger, the one closer \<open>New\<close> has put in the list; it logs
  nothing exactly when the logger's own \<^verbatim>\<open>Close()\<close> returns nil, and logs that error
  otherwise.
\<close>

theorem New_then_Run_and_Shutdown:
  assumes "New isDev config_New log_New = Inr a"
  shows "Run a [] = Some (None, a\<lparr>ctx_done := True\<rparr>) \<and>
         emitted a (Shutdown a) =
           EvCancel # EvClose 0 ''*log.Adapter'' #
           (case close_result (logger a) of
              Some e \<Rightarrow> [EvLogError e ''*log.Adapter'']
            | None \<Rightarrow> []) \<and>
         (filter is_log (emitted a (Shutdown a)) = [] \<longleftrightarrow> close_result (logger a) = None)"
proof -
  note N = New_Inr [OF assms]
  have run: "Run a [] = Some (None, a\<lparr>ctx_done := True\<rparr>)"
    using N(2,3) by (simp add: Run_def group_Wait_def start_runners_def idle_def)
  have em: "emitted a (Shutdown a) =
           EvCancel # EvClose 0 ''*log.Adapter'' #
           (case close_result (logger a) of
              Some e \<Rightarrow> [EvLogError e ''*log.Adapter'']
            | None \<Rightarrow> [])"
    by (simp add: emitted_Shutdown N(1) closer_events_def closer_of_def split: option.splits)
  have "filter is_log (emitted a (Shutdown a)) = [] \<longleftrightarrow> close_result (logger a) = None"
    unfolding em by (simp split: option.splits)
  with run em show ?thesis by blast
qed

theorem New_then_Run_and_Shutdown_witness:
  "New True (Inr no_config) good_logger = Inr (dev_app None) \<and>
   Run (dev_app None) [] = Some (None, (dev_app None)\<lparr>ctx_done := True\<rparr>) \<and>
   emitted (dev_app None) (Shutdown (dev_app None)) = [EvCancel, EvClose 0 ''*log.Adapter''] \<and>
   filter is_log (emitted (dev_app None) (Shutdown (dev_app None))) = []"
proof -
  have n: "New True (Inr no_config) good_logger = Inr (dev_app None)"
    by (simp add: New_def good_logger_def dev_app_def closer_of_def)
  show ?thesis
    using n New_then_Run_and_Shutdown [OF n] by (simp add: dev_app_def)
qed

text \<open>
  The claim as written promises a \<open>Shutdown\<close> with no logged error. With a logger whose
  \<^verbatim>\<open>Close()\<close> fails, the fresh application logs that error.
\<close>

theorem Shutdown_logs_logger_error_counterexample:
  "New True (Inr no_config) bad_logger =
     Inr (dev_app (Some ''sync /dev/stderr: invalid argument'')) \<and>
   runners (dev_app (Some ''sync /dev/stderr: invalid argument'')) = [] \<and>
   closers (dev_app (Some ''sync /dev/stderr: invalid argument'')) =
     [closer_of (logger (dev_app (Some ''sync /dev/stderr: invalid argument'')))] \<and>
   filter is_log
     (emitted (dev_app (Some ''sync /dev/stderr: invalid argument''))
        (Shutdown (dev_app (Some ''sync /dev/stderr: invalid argument'')))) =
     [EvLogError ''sync /dev/stderr: invalid argument'' ''*log.Adapter'']"
  by (simp add: New_def bad_logger_def dev_app_def closer_of_def emitted_Shutdown
        closer_events_def)

lemma perform_CallRun:
  "logger (perform (CallRun arrivals) a) = logger a"
  "closers (perform (CallRun arrivals) a) = closers a"
proof -
  have "logger (perform (CallRun arrivals) a) = logger a \<and>
        closers (perform (CallRun arrivals) a) = closers a"
  proof (cases "Run a arrivals")
    case None
    then show ?thesis
      by (simp add: arrive_fields start_runners_eq)
  next
    case (Some p)
    obtain r a' where p: "p = (r, a')" by (cases p)
    from Some p have "a' = (arrive arrivals (start_runners a))\<lparr>ctx_done := True\<rparr>"
      by (simp add: Run_result_state)
    with Some p show ?thesis
      by (simp add: arrive_fields start_runners_eq)
  qed
  then show "logger (perform (CallRun arrivals) a) = logger a"
    and "closers (perform (CallRun arrivals) a) = closers a" by simp_all
qed

lemma perform_keeps:
  "logger (perform c a) = logger a \<and> (\<exists>cs. closers (perform c a) = closers a @ cs)"
  by (cases c)
     (simp_all add: AddRunners_def AddClosers_def Shutdown_fields perform_CallRun
        del: perform.simps(3))

lemma fold_perform_keeps:
  "logger (fold perform calls a) = logger a \<and>
   (\<exists>cs. closers (fold perform calls a) = closers a @ cs)"
proof (induction calls arbitrary: a)
  case Nil
  show ?case by simp
next
  case (Cons c calls)
  from Cons.IH [of "perform c a"] perform_keeps [of c a]
  show ?case by auto
qed

text \<open>
  C9. After a successful \<open>New\<close> the closer list is the logger alone. Whatever calls
  follow (registrations, \<open>Run\<close>, \<open>Shutdown\<close>), the list stays non-empty with the logger
  first; so a \<open>Shutdown\<close> then emits the cancellation, then the \<^verbatim>\<open>Close()\<close> of the logger
  at position 0, and every call of the logger for a closer's error comes after these two.
\<close>

theorem logger_is_closed_first:
  assumes "New isDev config_New log_New = Inr a"
  shows "closers a = [closer_of (logger a)] \<and>
         (\<exists>cs. closers (fold perform calls a) = closer_of (logger a) # cs) \<and>
         logger (fold perform calls a) = logger a \<and>
         (\<exists>rest. emitted (fold perform calls a) (Shutdown (fold perform calls a)) =
                   EvCancel # EvClose 0 ''*log.Adapter'' # rest \<and>
                 filter is_log rest =
                   filter is_log (emitted (fold perform calls a) (Shutdown (fold perform calls a))))"
proof -
  let ?b = "fold perform calls a"
  note N = New_Inr [OF assms]
  from fold_perform_keeps [of calls a] N(1)
  obtain cs where cs: "closers ?b = closer_of (logger a) # cs" and lg: "logger ?b = logger a"
    by auto
  have pos: "0 < length (closers ?b)" by (simp add: cs)
  have upt: "[0..<length (closers ?b)] = 0 # [Suc 0..<length (closers ?b)]"
    by (rule upt_conv_Cons [OF pos])
  have "\<exists>tl. closer_events (closers ?b) 0 = EvClose 0 ''*log.Adapter'' # tl \<and>
          filter is_log tl = filter is_log (closer_events (closers ?b) 0)"
    by (simp add: closer_events_def cs closer_of_def)
  then obtain tl where tl: "closer_events (closers ?b) 0 = EvClose 0 ''*log.Adapter'' # tl" by blast
  have "emitted ?b (Shutdown ?b) =
          EvCancel # EvClose 0 ''*log.Adapter'' #
          (tl @ concat (map (closer_events (closers ?b)) [Suc 0..<length (closers ?b)]))"
    unfolding emitted_Shutdown by (subst upt) (simp add: tl)
  then have "\<exists>rest. emitted ?b (Shutdown ?b) = EvCancel # EvClose 0 ''*log.Adapter'' # rest \<and>
                 filter is_log rest = filter is_log (emitted ?b (Shutdown ?b))"
    by simp
  with N(1) cs lg show ?thesis by blast
qed

theorem logger_is_closed_first_witness:
  "New True (Inr no_config) good_logger = Inr (dev_app None) \<and>
   closers (fold perform [CallAddClosers three_closers, CallAddRunners three_runners,
                          CallRun [(0, None), (2, Some ''boom''), (1, None)]] (dev_app None)) =
     closer_of (logger (dev_app None)) # three_closers \<and>
   emitted (fold perform [CallAddClosers three_closers, CallAddRunners three_runners,
                          CallRun [(0, None), (2, Some ''boom''), (1, None)]] (dev_app None))
     (Shutdown (fold perform [CallAddClosers three_closers, CallAddRunners three_runners,
                          CallRun [(0, None), (2, Some ''boom''), (1, None)]] (dev_app None))) =
     [EvCancel, EvClose 0 ''*log.Adapter'', EvClose 1 ''*db.Client'', EvClose 2 ''*files.Store'',
      EvLogError ''disk full'' ''*files.Store'', EvClose 3 ''*mq.Client'']"
proof -
  have n: "New True (Inr no_config) good_logger = Inr (dev_app None)"
    by (simp add: New_def good_logger_def dev_app_def closer_of_def)
  let ?calls = "[CallAddClosers three_closers, CallAddRunners three_runners,
                 CallRun [(0, None), (2, Some ''boom''), (1, None)]]"
  have c: "closers (fold perform ?calls (dev_app None)) = closer_of (logger (dev_app None)) # three_closers"
    by (simp add: AddClosers_def AddRunners_def perform_CallRun dev_app_def closer_of_def
          del: perform.simps(3))
  show ?thesis
    using n c logger_is_closed_first [OF n, of ?calls]
    by (simp add: emitted_Shutdown closer_events_def three_closers_def closer_of_def
          dev_app_def upt_conv_Cons)
qed

subsection \<open>Run\<close>

lemma first_error_at:
  assumes "\<forall>x \<in> set pre. snd x = None"
  shows "first_error rs (pre @ (i, Some e) # post) =
           Some (''start runner['' @ rtype (rs ! i) @ '']: '' @ e)"
  using first_error_all_nil [OF assms, of rs]
  by (simp add: first_error_append runner_func_def WithMessage_def)

lemma first_failure_split:
  assumes "(i, Some e) \<in> set evs"
  shows "\<exists>pre j e' post. evs = pre @ (j, Some e') # post \<and> (\<forall>x \<in> set pre. snd x = None)"
proof -
  from assms have "\<exists>x \<in> set evs. snd x \<noteq> None" by force
  from split_list_first_prop [OF this]
  obtain pre x post where s: "evs = pre @ x # post" and x: "snd x \<noteq> None"
    and pre: "\<forall>y \<in> set pre. \<not> snd y \<noteq> None" by blast
  from x obtain j e' where "x = (j, Some e')" by (cases x) auto
  with s pre show ?thesis by auto
qed

text \<open>
  C1. Take an application that has not been run and arrivals in which every registered
  runner returns once. If the first arrival with a non-nil error is that of the runner at
  position \<open>i\<close> with error \<open>e\<close> (all arrivals before it are nil), then \<open>Run\<close> returns
  that error, wrapped with the runner's type, whatever the later arrivals are and in
  whatever order they come, and wherever \<open>i\<close> stands in the registration order.
\<close>

theorem Run_returns_first_error:
  assumes "idle a" and "all_returned a arrivals"
    and "arrivals = pre @ (i, Some e) # post"
    and "\<forall>x \<in> set pre. snd x = None"
  shows "\<exists>a'. Run a arrivals =
           Some (Some (''start runner['' @ rtype (runners a ! i) @ '']: '' @ e), a')"
  using Run_returns [OF assms(1,2)] first_error_at [OF assms(4), of "runners a" i e post]
  by (simp add: assms(3))

theorem Run_returns_first_error_witness:
  "idle (AddRunners three_runners (dev_app None)) \<and>
   all_returned (AddRunners three_runners (dev_app None))
     ([(2, None)] @ (1, Some ''boom'') # [(0, Some ''bind: address in use'')]) \<and>
   map_option fst
     (Run (AddRunners three_runners (dev_app None))
        ([(2, None)] @ (1, Some ''boom'') # [(0, Some ''bind: address in use'')])) =
     Some (Some ''start runner[*https.Server]: boom'')"
proof -
  let ?a = "AddRunners three_runners (dev_app None)"
  let ?post = "[(0::nat, Some ''bind: address in use'')]"
  have i: "idle ?a"
    by (simp add: idle_def AddRunners_def dev_app_def)
  have r: "all_returned ?a ([(2, None)] @ (1, Some ''boom'') # ?post)"
    by (simp add: all_returned_def AddRunners_def dev_app_def three_runners_def upt_conv_Cons)
  have p: "\<forall>x \<in> set [(2::nat, None :: err option)]. snd x = None" by simp
  from Run_returns_first_error [OF i r refl p]
  show ?thesis using i r
    by (auto simp add: AddRunners_def dev_app_def three_runners_def)
qed

text \<open>
  C2 (as the code has it). If some runner returns a non-nil error, the error \<open>Run\<close>
  returns is non-nil and is \<open>start runner[<type>]: <message>\<close> for the runner whose failure
  arrives first; it is the given runner's error when no other runner fails.
\<close>

theorem Run_error_is_wrapped_first_failure:
  assumes "idle a" and "all_returned a arrivals" and "(i, Some e) \<in> set arrivals"
  shows "\<exists>pre j e' post a'.
           arrivals = pre @ (j, Some e') # post \<and> (\<forall>x \<in> set pre. snd x = None) \<and>
           j < length (runners a) \<and>
           Run a arrivals =
             Some (Some (''start runner['' @ rtype (runners a ! j) @ '']: '' @ e'), a') \<and>
           ((\<forall>k e''. (k, Some e'') \<in> set arrivals \<longrightarrow> k = i) \<longrightarrow> j = i \<and> e' = e)"
proof -
  from first_failure_split [OF assms(3)]
  obtain pre j e' post where s: "arrivals = pre @ (j, Some e') # post"
    and pre: "\<forall>x \<in> set pre. snd x = None" by blast
  from Run_returns [OF assms(1,2)] first_error_at [OF pre, of "runners a" j e' post]
  obtain a' where run: "Run a arrivals =
      Some (Some (''start runner['' @ rtype (runners a ! j) @ '']: '' @ e'), a')"
    by (auto simp: s)
  have j_in: "(j, Some e') \<in> set arrivals" by (simp add: s)
  then have "j \<in> fst ` set arrivals" by force
  with all_returned_facts(2) [OF assms(2)] have lt: "j < length (runners a)" by simp
  have only: "j = i \<and> e' = e" if "\<forall>k e''. (k, Some e'') \<in> set arrivals \<longrightarrow> k = i"
  proof -
    from that j_in have ji: "j = i" by blast
    from eq_key_imp_eq_value [OF all_returned_facts(1) [OF assms(2)] assms(3)] j_in ji
    have "Some e = Some e'" by simp
    with ji show ?thesis by simp
  qed
  from s pre lt run only show ?thesis by blast
qed

theorem Run_error_is_wrapped_first_failure_witness:
  "idle (AddRunners three_runners (dev_app None)) \<and>
   all_returned (AddRunners three_runners (dev_app None)) [(2, None), (1, Some ''boom''), (0, None)] \<and>
   (1, Some ''boom'') \<in> set [(2, None), (1, Some ''boom''), (0::nat, None)] \<and>
   map_option fst
     (Run (AddRunners three_runners (dev_app None)) [(2, None), (1, Some ''boom''), (0, None)]) =
     Some (Some ''start runner[*https.Server]: boom'')"
proof -
  let ?a = "AddRunners three_runners (dev_app None)"
  let ?evs = "[(2::nat, None), (1, Some ''boom''), (0, None)]"
  have i: "idle ?a"
    by (simp add: idle_def AddRunners_def dev_app_def)
  have r: "all_returned ?a ?evs"
    by (simp add: all_returned_def AddRunners_def dev_app_def three_runners_def upt_conv_Cons)
  have m: "(1, Some ''boom'') \<in> set ?evs" by simp
  have only: "\<forall>k e''. (k, Some e'') \<in> set ?evs \<longrightarrow> k = 1" by simp
  from Run_error_is_wrapped_first_failure [OF i r m] only
  obtain a' where "Run ?a ?evs =
       Some (Some (''start runner['' @ rtype (runners ?a ! 1) @ '']: '' @ ''boom''), a')"
    by blast
  then show ?thesis using i r
    by (simp add: AddRunners_def dev_app_def three_runners_def)
qed

text \<open>
  The claim as written speaks of every failing runner. When two runners fail, the second
  to arrive does not get its error returned.
\<close>

theorem Run_second_failure_counterexample:
  "idle (AddRunners three_runners (dev_app None)) \<and>
   all_returned (AddRunners three_runners (dev_app None))
     [(0, Some ''bind: address in use''), (1, Some ''boom''), (2, None)] \<and>
   (1, Some ''boom'') \<in> set [(0, Some ''bind: address in use''), (1, Some ''boom''), (2::nat, None)] \<and>
   map_option fst
     (Run (AddRunners three_runners (dev_app None))
        [(0, Some ''bind: address in use''), (1, Some ''boom''), (2, None)]) =
     Some (Some ''start runner[*grpcs.Server]: bind: address in use'') \<and>
   map_option fst
     (Run (AddRunners three_runners (dev_app None))
        [(0, Some ''bind: address in use''), (1, Some ''boom''), (2, None)]) \<noteq>
     Some (Some (''start runner['' @
        rtype (runners (AddRunners three_runners (dev_app None)) ! 1) @ '']: '' @ ''boom''))"
proof -
  let ?a = "AddRunners three_runners (dev_app None)"
  let ?evs = "[(0::nat, Some ''bind: address in use''), (1, Some ''boom''), (2, None)]"
  have i: "idle ?a"
    by (simp add: idle_def AddRunners_def dev_app_def)
  have r: "all_returned ?a ?evs"
    by (simp add: all_returned_def AddRunners_def dev_app_def three_runners_def upt_conv_Cons)
  from Run_returns [OF i r]
  obtain a' where "Run ?a ?evs = Some (first_error (runners ?a) ?evs, a')" by blast
  then have m: "map_option fst (Run ?a ?evs) =
      Some (Some ''start runner[*grpcs.Server]: bind: address in use'')"
    by (simp add: AddRunners_def dev_app_def three_runners_def runner_func_def WithMessage_def)
  have ne: "Some (Some ''start runner[*grpcs.Server]: bind: address in use'') \<noteq>
      Some (Some (''start runner['' @ rtype (runners ?a ! 1) @ '']: '' @ ''boom''))"
    by (simp add: AddRunners_def dev_app_def three_runners_def)
  have ne': "map_option fst (Run ?a ?evs) \<noteq>
      Some (Some (''start runner['' @ rtype (runners ?a ! 1) @ '']: '' @ ''boom''))"
    unfolding m by (rule ne)
  have mem: "(1, Some ''boom'') \<in> set ?evs" by simp
  from i r mem m ne' show ?thesis by blast
qed






text \<open>
  C4. For any number of registered runners, on an application that has not been run:
  \<open>Run\<close> returns only if every registered runner has an arrival (while one is missing it
  is still blocked); once every runner has returned it does return; and if all of them
  returned nil it returns nil.
\<close>

theorem Run_waits_for_every_runner:
  assumes "idle a"
  shows "(Run a arrivals \<noteq> None \<longrightarrow> (\<forall>i < length (runners a). i \<in> fst ` set arrivals)) \<and>
         (all_returned a arrivals \<longrightarrow> Run a arrivals \<noteq> None) \<and>
         (all_returned a arrivals \<and> (\<forall>x \<in> set arrivals. snd x = None) \<longrightarrow>
            (\<exists>a'. Run a arrivals = Some (None, a')))"
proof -
  have 1: "Run a arrivals \<noteq> None \<longrightarrow> (\<forall>i < length (runners a). i \<in> fst ` set arrivals)"
  proof (intro impI allI)
    fix i
    assume ret: "Run a arrivals \<noteq> None" and lt: "i < length (runners a)"
    show "i \<in> fst ` set arrivals"
    proof (rule ccontr)
      assume "i \<notin> fst ` set arrivals"
      from Run_blocked [OF lt this] ret show False by simp
    qed
  qed
  have 2: "all_returned a arrivals \<longrightarrow> Run a arrivals \<noteq> None"
    using Run_returns [OF assms, of arrivals] by auto
  have 3: "all_returned a arrivals \<and> (\<forall>x \<in> set arrivals. snd x = None) \<longrightarrow>
            (\<exists>a'. Run a arrivals = Some (None, a'))"
    using Run_returns [OF assms, of arrivals] first_error_all_nil [of arrivals "runners a"]
    by auto
  from 1 2 3 show ?thesis by blast
qed

theorem Run_waits_for_every_runner_witness:
  "idle (AddRunners three_runners (dev_app None)) \<and>
   all_returned (AddRunners three_runners (dev_app None)) [(1, None), (2, None), (0, None)] \<and>
   map_option fst (Run (AddRunners three_runners (dev_app None)) [(1, None), (2, None), (0, None)]) =
     Some None \<and>
   Run (AddRunners three_runners (dev_app None)) [(1, None), (2, None)] = None \<and>
   idle (dev_app None) \<and> all_returned (dev_app None) [] \<and>
   map_option fst (Run (dev_app None) []) = Some None"
proof -
  let ?a = "AddRunners three_runners (dev_app None)"
  let ?evs = "[(1::nat, None :: err option), (2, None), (0, None)]"
  have i: "idle ?a"
    by (simp add: idle_def AddRunners_def dev_app_def)
  have r: "all_returned ?a ?evs"
    by (simp add: all_returned_def AddRunners_def dev_app_def three_runners_def upt_conv_Cons)
  have n: "\<forall>x \<in> set ?evs. snd x = None" by simp
  have i0: "idle (dev_app None)" by (simp add: idle_def dev_app_def)
  have r0: "all_returned (dev_app None) []" by (simp add: all_returned_def dev_app_def)
  have len: "(0::nat) < length (runners ?a)"
    by (simp add: AddRunners_def dev_app_def three_runners_def)
  have blocked: "Run ?a [(1, None), (2, None)] = None"
  proof (rule ccontr)
    assume "Run ?a [(1, None), (2, None)] \<noteq> None"
    with Run_waits_for_every_runner [OF i, of "[(1, None), (2, None)]"] len
    have "(0::nat) \<in> fst ` set [(1::nat, None :: err option), (2, None)]" by blast
    then show False by simp
  qed
  from Run_waits_for_every_runner [OF i, of ?evs] r n
  obtain a' where 1: "Run ?a ?evs = Some (None, a')" by blast
  from Run_waits_for_every_runner [OF i0, of "[]"] r0
  obtain a0 where 2: "Run (dev_app None) [] = Some (None, a0)" by auto
  show ?thesis using i r i0 r0 blocked 1 2 by simp
qed

end
